theory Spec2Isabelle
  imports Complex_Main "HOL-Library.Word" "HOL-Library.Sublist"
begin

unbundle bit_operations_syntax

section \<open>Emstrument: the MIDI command queue and its flush\<close>

text \<open>
  A shallow embedding of \<^verbatim>\<open>emstrument.c\<close>: the command queue filled by the Lua API
  calls, the three passes of \<^verbatim>\<open>midi_sendMessages\<close> (backward removal of superfluous
  commands, forward split of note-ons for notes that are already playing, sending), the
  \<^verbatim>\<open>send...\<close> functions with the note bookkeeping they update, and the blocks handed
  to \<^verbatim>\<open>dispatch_after\<close>, kept as task values that are fired explicitly.
\<close>

subsection \<open>Commands\<close>

text \<open>
  \<^verbatim>\<open>commandType\<close> is the C enum (\<^verbatim>\<open>kInvalid = -1\<close>). A \<^verbatim>\<open>command\<close> is the C struct; each
  anonymous union is one field, named after its first member: \<open>note\<close> is also \<^verbatim>\<open>CC\<close> and
  \<^verbatim>\<open>MS7b\<close>, \<open>velocity\<close> is also the CC value and \<^verbatim>\<open>LS7b\<close>. The C fields are \<^verbatim>\<open>int\<close>; they
  only ever hold the small values the API calls store, so they are \<open>int\<close> here.
\<close>

datatype commandType =
  kInvalid | kNoteOn | kNoteOnWithDuration | kNoteOff | kCC | kPitchBend | kResetNotes

record command =
  type :: commandType
  channel :: int
  "note" :: int
  velocity :: int
  duration :: int

definition CC :: "command \<Rightarrow> int" where
  "CC c = note c"

definition MS7b :: "command \<Rightarrow> int" where
  "MS7b c = note c"

definition LS7b :: "command \<Rightarrow> int" where
  "LS7b c = velocity c"

text \<open>
  The ranges the API calls establish (see \<open>midi_noteon\<close> and the other calls below): the
  channel is 0..15; a note-on has a note 0..127 and a velocity 1..127, with a positive
  duration when it has one; a note-off has a note 0..127; a CC has a controller 0..119 and
  a value 0..127; a pitch bend has two 7-bit halves. Inside these ranges every array index
  and every shift of the C code is defined, and the model below computes what the C code
  computes.
\<close>

definition in_range :: "command \<Rightarrow> bool" where
  "in_range c =
     (0 \<le> channel c \<and> channel c \<le> 15 \<and>
      (case type c of
         kNoteOn \<Rightarrow> 0 \<le> note c \<and> note c \<le> 127 \<and> 1 \<le> velocity c \<and> velocity c \<le> 127
       | kNoteOnWithDuration \<Rightarrow>
           0 \<le> note c \<and> note c \<le> 127 \<and> 1 \<le> velocity c \<and> velocity c \<le> 127 \<and> 0 < duration c
       | kNoteOff \<Rightarrow> 0 \<le> note c \<and> note c \<le> 127
       | kCC \<Rightarrow> 0 \<le> CC c \<and> CC c \<le> 119 \<and> 0 \<le> velocity c \<and> velocity c \<le> 127
       | kPitchBend \<Rightarrow> 0 \<le> MS7b c \<and> MS7b c \<le> 127 \<and> 0 \<le> LS7b c \<and> LS7b c \<le> 127
       | kResetNotes \<Rightarrow> True
       | kInvalid \<Rightarrow> True))"

subsection \<open>Pass 1: run through backwards, remove superfluous commands\<close>

text \<open>
  The locals of \<^verbatim>\<open>midi_sendMessages\<close>: three arrays of 128 \<^verbatim>\<open>uint16_t\<close>, one bit per
  channel, and two single \<^verbatim>\<open>uint16_t\<close> masks. \<open>claimed w ch\<close> is the test
  \<^verbatim>\<open>((w >> ch) & 1) == 1\<close> and \<open>claim w ch\<close> is \<^verbatim>\<open>w |= (1 << ch)\<close>.
\<close>

record dedup =
  noteOns :: "nat \<Rightarrow> 16 word"
  noteOffs :: "nat \<Rightarrow> 16 word"
  CCs :: "nat \<Rightarrow> 16 word"
  notesReset :: "16 word"
  pitchBends :: "16 word"
  laterNotes :: nat
  messagesSent :: int

definition dedup_init :: "nat \<Rightarrow> dedup" where
  "dedup_init n =
     \<lparr>noteOns = (\<lambda>_. 0), noteOffs = (\<lambda>_. 0), CCs = (\<lambda>_. 0), notesReset = 0, pitchBends = 0,
      laterNotes = 0, messagesSent = int n\<rparr>"

definition claimed :: "16 word \<Rightarrow> int \<Rightarrow> bool" where
  "claimed w ch = (drop_bit (nat ch) w AND 1 = 1)"

definition claim :: "16 word \<Rightarrow> int \<Rightarrow> 16 word" where
  "claim w ch = w OR push_bit (nat ch) 1"

definition remove_me :: "command \<Rightarrow> dedup \<Rightarrow> command \<times> dedup" where
  "remove_me c m = (c\<lparr>type := kInvalid\<rparr>, m\<lparr>messagesSent := messagesSent m - 1\<rparr>)"

text \<open>The body of the \<^verbatim>\<open>case kNoteOn: case kNoteOnWithDuration:\<close> block.\<close>

definition note_on_case :: "(nat \<Rightarrow> nat \<Rightarrow> bool) \<Rightarrow> command \<Rightarrow> dedup \<Rightarrow> command \<times> dedup" where
  "note_on_case playing c m =
     (let ch = channel c; n = nat (note c) in
      if claimed (noteOffs m n) ch then remove_me c m
      else if claimed (noteOns m n) ch then remove_me c m
      else if claimed (notesReset m) ch then remove_me c m
      else (c, m\<lparr>noteOns := (noteOns m)(n := claim (noteOns m n) ch),
                 laterNotes := (if playing (nat ch) n then laterNotes m + 1 else laterNotes m)\<rparr>))"

text \<open>One iteration of the backward loop: the \<^verbatim>\<open>switch\<close> on the command's type.\<close>

definition dedup_step :: "(nat \<Rightarrow> nat \<Rightarrow> bool) \<Rightarrow> command \<Rightarrow> dedup \<Rightarrow> command \<times> dedup" where
  "dedup_step playing c m =
     (let ch = channel c in
      case type c of
        kNoteOn \<Rightarrow> note_on_case playing c m
      | kNoteOnWithDuration \<Rightarrow> note_on_case playing c m
      | kNoteOff \<Rightarrow>
          (c, m\<lparr>noteOffs := (noteOffs m)(nat (note c) := claim (noteOffs m (nat (note c))) ch)\<rparr>)
      | kCC \<Rightarrow>
          (if claimed (CCs m (nat (CC c))) ch then remove_me c m
           else (c, m\<lparr>CCs := (CCs m)(nat (CC c) := claim (CCs m (nat (CC c))) ch)\<rparr>))
      | kPitchBend \<Rightarrow>
          (if claimed (pitchBends m) ch then remove_me c m
           else (c, m\<lparr>pitchBends := claim (pitchBends m) ch\<rparr>))
      | kResetNotes \<Rightarrow> (c, m\<lparr>notesReset := claim (notesReset m) ch\<rparr>)
      | kInvalid \<Rightarrow> (c, m))"

text \<open>
  The loop \<^verbatim>\<open>for (i = commandQueueIndex - 1; i >= 0; i--)\<close>: the command at the head of
  the list is visited after every command behind it, with the masks they left, and is
  overwritten in place.
\<close>

fun pass1 :: "(nat \<Rightarrow> nat \<Rightarrow> bool) \<Rightarrow> dedup \<Rightarrow> command list \<Rightarrow> command list \<times> dedup" where
  "pass1 playing m0 [] = ([], m0)"
| "pass1 playing m0 (c # cs) =
     (let (cs', m) = pass1 playing m0 cs;
          (c', m') = dedup_step playing c m
      in (c' # cs', m'))"

subsection \<open>Pass 2: move note-ons for notes that are already playing to a delayed list\<close>

definition is_note_on :: "command \<Rightarrow> bool" where
  "is_note_on c = (type c = kNoteOn \<or> type c = kNoteOnWithDuration)"

text \<open>
  The forward loop: a note-on whose note is playing is copied to the end of
  \<^verbatim>\<open>delayedCommands\<close> and its queue entry becomes a \<^verbatim>\<open>kNoteOff\<close>, the other fields staying
  as they are. The result is the queue and the delayed list.
\<close>

fun pass2 :: "(nat \<Rightarrow> nat \<Rightarrow> bool) \<Rightarrow> command list \<Rightarrow> command list \<times> command list" where
  "pass2 playing [] = ([], [])"
| "pass2 playing (c # cs) =
     (let (q, delayedCommands) = pass2 playing cs in
      if is_note_on c \<and> playing (nat (channel c)) (nat (note c))
      then (c\<lparr>type := kNoteOff\<rparr> # q, c # delayedCommands)
      else (c # q, delayedCommands))"

text \<open>
  Passes 1 and 2 together. Pass 3 sends every entry of the queue whose type is not
  \<^verbatim>\<open>kInvalid\<close>, in order (\<open>immediate\<close>); pass 4 hands the delayed list to a deferred block.
\<close>

definition coalesce :: "(nat \<Rightarrow> nat \<Rightarrow> bool) \<Rightarrow> command list \<Rightarrow> command list \<times> command list" where
  "coalesce playing batch =
     pass2 playing (fst (pass1 playing (dedup_init (length batch)) batch))"

definition immediate :: "(nat \<Rightarrow> nat \<Rightarrow> bool) \<Rightarrow> command list \<Rightarrow> command list" where
  "immediate playing batch = filter (\<lambda>c. type c \<noteq> kInvalid) (fst (coalesce playing batch))"

definition deferred :: "(nat \<Rightarrow> nat \<Rightarrow> bool) \<Rightarrow> command list \<Rightarrow> command list" where
  "deferred playing batch = snd (coalesce playing batch)"

subsection \<open>Module state\<close>

text \<open>
  The file-scope variables. \<open>luaMIDI\<close> stands for the three CoreMIDI and GCD handles,
  which \<^verbatim>\<open>midi_init\<close> creates together. \<open>commandQueue\<close> is \<open>None\<close> for the \<^verbatim>\<open>NULL\<close> pointer
  and otherwise the allocated array, \<open>commandQueueAllocatedSize\<close> cells long;
  \<open>commandQueueIndex\<close> is the first free cell. The index (a C \<^verbatim>\<open>int\<close>) and the size (a
  \<^verbatim>\<open>uint32_t\<close>) count cells and are natural numbers here, without the bound of their C
  types. The two timing settings are C doubles and are taken as exact real numbers.
  What the module does to the outside is recorded in the state: \<open>received\<close> lists the
  three-byte packets passed to \<^verbatim>\<open>MIDIReceived\<close>, in order, and \<open>dispatched\<close> lists the
  blocks passed to \<^verbatim>\<open>dispatch_after\<close>. A dispatched block runs when \<open>fire\<close> is applied to
  it, as one step: the interleaving of blocks with each other and with a flush is a
  choice of the order of these steps.
\<close>

type_synonym packet = "8 word list"

text \<open>
  A block given to \<^verbatim>\<open>dispatch_after\<close>, with its delay in nanoseconds and the values it
  captured: the note-off block of \<^verbatim>\<open>sendNoteOnWithDuration\<close> captures \<^verbatim>\<open>ch\<close>, \<^verbatim>\<open>note\<close> and
  \<^verbatim>\<open>currentNoteID\<close>; the block of \<^verbatim>\<open>midi_sendMessages\<close> captures the delayed commands.
\<close>

datatype task =
    NoteOffBlock real int int int
  | DelayedBlock real "command list"

record midi =
  luaMIDI :: bool
  commandQueue :: "command list option"
  commandQueueAllocatedSize :: nat
  commandQueueIndex :: nat
  notePlaying :: "nat \<Rightarrow> nat \<Rightarrow> bool"
  lastNoteIDs :: "nat \<Rightarrow> nat \<Rightarrow> 8 word"
  duration_unit :: real
  late_note_offset :: real
  received :: "packet list"
  dispatched :: "task list"

definition DEFAULT_DURATION_UNIT :: real where
  "DEFAULT_DURATION_UNIT = 16"

definition DEFAULT_OFFSET :: real where
  "DEFAULT_OFFSET = 0"

definition CMD_BLOCK :: nat where
  "CMD_BLOCK = 64"

text \<open>The state when the module is loaded: C zero-initialises the statics.\<close>

definition startup :: midi where
  "startup =
     \<lparr>luaMIDI = False, commandQueue = None, commandQueueAllocatedSize = 0, commandQueueIndex = 0,
      notePlaying = (\<lambda>_ _. False), lastNoteIDs = (\<lambda>_ _. 0),
      duration_unit = DEFAULT_DURATION_UNIT, late_note_offset = DEFAULT_OFFSET,
      received = [], dispatched = []\<rparr>"

subsection \<open>The queue\<close>

text \<open>
  Cells that \<^verbatim>\<open>malloc\<close> and \<^verbatim>\<open>realloc\<close> add hold indeterminate bytes in C. The program
  reads a cell only below \<open>commandQueueIndex\<close>, after writing it; the model fills new cells
  with \<open>fresh_cell\<close>. Fields of a command that an API call leaves unassigned are
  indeterminate in the same way, are never read for that command type, and are 0 here.
\<close>

definition fresh_cell :: command where
  "fresh_cell = \<lparr>type = kInvalid, channel = 0, note = 0, velocity = 0, duration = 0\<rparr>"

definition cells :: "midi \<Rightarrow> command list" where
  "cells s = (case commandQueue s of None \<Rightarrow> [] | Some b \<Rightarrow> b)"

text \<open>
  \<^verbatim>\<open>queueCommand\<close>: when the index has reached the allocated size, the size grows by
  \<^verbatim>\<open>CMD_BLOCK\<close> and the array is reallocated (\<^verbatim>\<open>realloc\<close> of \<^verbatim>\<open>NULL\<close> allocates); then the
  command is written at the index and the index moves on. The result of \<^verbatim>\<open>realloc\<close> is
  not checked by the C code; the model is the run in which the allocation succeeds.
\<close>

definition queueCommand :: "command \<Rightarrow> midi \<Rightarrow> midi" where
  "queueCommand c s =
     (let s1 = (if commandQueueIndex s = commandQueueAllocatedSize s
                then s\<lparr>commandQueueAllocatedSize := commandQueueAllocatedSize s + CMD_BLOCK,
                       commandQueue := Some (cells s @ replicate CMD_BLOCK fresh_cell)\<rparr>
                else s)
      in s1\<lparr>commandQueue := Some ((cells s1)[commandQueueIndex s1 := c]),
            commandQueueIndex := commandQueueIndex s1 + 1\<rparr>)"

text \<open>The commands waiting in the queue: the cells below the index.\<close>

definition queued :: "midi \<Rightarrow> command list" where
  "queued s = take (commandQueueIndex s) (cells s)"

definition initcheck :: "midi \<Rightarrow> bool" where
  "initcheck s = (luaMIDI s \<and> commandQueue s \<noteq> None)"

subsection \<open>Sending\<close>

text \<open>
  The \<^verbatim>\<open>send...\<close> functions. Each builds one three-byte packet (\<^verbatim>\<open>Byte\<close> is an unsigned
  8-bit value) and passes it to \<^verbatim>\<open>MIDIReceived\<close>. \<^verbatim>\<open>lastNoteIDs\<close> is a \<^verbatim>\<open>uint8_t\<close> array:
  the increment wraps at 256.
\<close>

definition byte :: "int \<Rightarrow> 8 word" where
  "byte x = word_of_int x"

definition sendNoteOn :: "int \<Rightarrow> int \<Rightarrow> int \<Rightarrow> midi \<Rightarrow> midi" where
  "sendNoteOn ch n vel s =
     s\<lparr>lastNoteIDs := (lastNoteIDs s)(nat ch := (lastNoteIDs s (nat ch))(nat n := lastNoteIDs s (nat ch) (nat n) + 1)),
       received := received s @ [[byte (0x90 + ch), byte n, byte vel]],
       notePlaying := (notePlaying s)(nat ch := (notePlaying s (nat ch))(nat n := True))\<rparr>"

text \<open>
  \<^verbatim>\<open>sendNoteOnWithDuration\<close> also hands a note-off block to \<^verbatim>\<open>dispatch_after\<close>, due after
  \<^verbatim>\<open>1000000 * duration_unit * (duration - offset)\<close> nanoseconds, which captures the
  incremented note ID as the \<^verbatim>\<open>int\<close> \<^verbatim>\<open>currentNoteID\<close>. The delay is computed in exact
  arithmetic here; C computes it in floating point, which gives the same value
  whenever the operands and the result are integers small enough to be represented.
\<close>

definition sendNoteOnWithDuration :: "int \<Rightarrow> int \<Rightarrow> int \<Rightarrow> int \<Rightarrow> real \<Rightarrow> midi \<Rightarrow> midi" where
  "sendNoteOnWithDuration ch n vel dur offset s =
     (let ids = (lastNoteIDs s)(nat ch := (lastNoteIDs s (nat ch))(nat n := lastNoteIDs s (nat ch) (nat n) + 1));
          currentNoteID = uint (ids (nat ch) (nat n))
      in s\<lparr>lastNoteIDs := ids,
            received := received s @ [[byte (0x90 + ch), byte n, byte vel]],
            notePlaying := (notePlaying s)(nat ch := (notePlaying s (nat ch))(nat n := True)),
            dispatched := dispatched s @
              [NoteOffBlock (1000000 * duration_unit s * (real_of_int dur - offset)) ch n currentNoteID]\<rparr>)"

definition sendNoteOff :: "int \<Rightarrow> int \<Rightarrow> midi \<Rightarrow> midi" where
  "sendNoteOff ch n s =
     s\<lparr>received := received s @ [[byte (0x80 + ch), byte n, 100]],
       notePlaying := (notePlaying s)(nat ch := (notePlaying s (nat ch))(nat n := False))\<rparr>"

definition sendCC :: "int \<Rightarrow> int \<Rightarrow> int \<Rightarrow> midi \<Rightarrow> midi" where
  "sendCC ch cc v s = s\<lparr>received := received s @ [[byte (0xB0 + ch), byte cc, byte v]]\<rparr>"

definition sendPitchBend :: "int \<Rightarrow> int \<Rightarrow> int \<Rightarrow> midi \<Rightarrow> midi" where
  "sendPitchBend ch msb lsb s = s\<lparr>received := received s @ [[byte (0xE0 + ch), byte lsb, byte msb]]\<rparr>"

text \<open>
  \<^verbatim>\<open>sendResetNotes\<close>: one note-off packet for each of the 128 notes that is playing on the
  channel, in one packet list, then the channel's row of \<^verbatim>\<open>notePlaying\<close> is cleared.
\<close>

definition sendResetNotes :: "int \<Rightarrow> midi \<Rightarrow> midi" where
  "sendResetNotes ch s =
     s\<lparr>received := received s @
          map (\<lambda>i. [byte (0x80 + ch), byte (int i), 0]) (filter (notePlaying s (nat ch)) [0..<128]),
       notePlaying := (notePlaying s)(nat ch := (\<lambda>_. False))\<rparr>"

text \<open>Pass 3 of \<^verbatim>\<open>midi_sendMessages\<close>: the \<^verbatim>\<open>switch\<close> that sends one queue entry.\<close>

definition send_entry :: "command \<Rightarrow> midi \<Rightarrow> midi" where
  "send_entry c s =
     (case type c of
        kNoteOn \<Rightarrow> sendNoteOn (channel c) (note c) (velocity c) s
      | kNoteOnWithDuration \<Rightarrow> sendNoteOnWithDuration (channel c) (note c) (velocity c) (duration c) 0 s
      | kNoteOff \<Rightarrow> sendNoteOff (channel c) (note c) s
      | kCC \<Rightarrow> sendCC (channel c) (CC c) (velocity c) s
      | kPitchBend \<Rightarrow> sendPitchBend (channel c) (MS7b c) (LS7b c) s
      | kResetNotes \<Rightarrow> sendResetNotes (channel c) s
      | kInvalid \<Rightarrow> s)"

text \<open>
  The \<^verbatim>\<open>switch\<close> inside the deferred block of pass 4: only note-ons are sent, a note-on
  with duration with \<^verbatim>\<open>late_note_offset\<close> as its offset.
\<close>

definition send_delayed :: "command \<Rightarrow> midi \<Rightarrow> midi" where
  "send_delayed c s =
     (case type c of
        kNoteOn \<Rightarrow> sendNoteOn (channel c) (note c) (velocity c) s
      | kNoteOnWithDuration \<Rightarrow>
          sendNoteOnWithDuration (channel c) (note c) (velocity c) (duration c) (late_note_offset s) s
      | _ \<Rightarrow> s)"

text \<open>
  Running a dispatched block. The note-off block compares the note's current ID with the
  captured one; when they are equal it sends a note-off (velocity byte 0) and clears
  \<^verbatim>\<open>notePlaying\<close>, otherwise it does nothing.
\<close>

fun fire :: "task \<Rightarrow> midi \<Rightarrow> midi" where
  "fire (NoteOffBlock delay ch n currentNoteID) s =
     (if uint (lastNoteIDs s (nat ch) (nat n)) = currentNoteID
      then s\<lparr>received := received s @ [[byte (0x80 + ch), byte n, 0]],
             notePlaying := (notePlaying s)(nat ch := (notePlaying s (nat ch))(nat n := False))\<rparr>
      else s)"
| "fire (DelayedBlock delay delayedCommands) s = fold send_delayed delayedCommands s"

subsection \<open>MIDI.sendmessages()\<close>

datatype error = LuaError string

text \<open>
  The passes run on the queued commands and overwrite them in place; sending follows,
  then the delayed list is dispatched after \<^verbatim>\<open>1000000 * late_note_offset\<close> nanoseconds and
  the queue index is reset.
\<close>

definition midi_sendMessages :: "midi \<Rightarrow> error + midi" where
  "midi_sendMessages s =
     (if \<not> initcheck s then Inl (LuaError ''Must call MIDI.init() before MIDI.sendmessages()'')
      else
        let (q, delayedCommands) = coalesce (notePlaying s) (queued s);
            s1 = s\<lparr>commandQueue := Some (q @ drop (commandQueueIndex s) (cells s))\<rparr>;
            s2 = fold send_entry q s1;
            s3 = s2\<lparr>dispatched := dispatched s2 @
                    [DelayedBlock (1000000 * late_note_offset s2) delayedCommands]\<rparr>
        in Inr (s3\<lparr>commandQueueIndex := 0\<rparr>))"

subsection \<open>The API calls that fill the queue\<close>

text \<open>
  A call receives the Lua arguments as a list; \<^verbatim>\<open>luaL_checkinteger(L, k)\<close> is the \<open>k\<close>-th
  of them (counted from 1), an integer. \<^verbatim>\<open>luaL_error\<close> is the result \<open>Inl\<close>; it leaves the
  state as it was, since every check comes before the first assignment to a variable of
  the module.

  The channel argument is stored in a C \<^verbatim>\<open>int\<close> (32 bits), decremented, and clamped to
  0..15. The decrement of the least \<^verbatim>\<open>int\<close> wraps around here.
\<close>

definition channel_arg :: "int \<Rightarrow> int" where
  "channel_arg x =
     (let channel = sint ((word_of_int x :: 32 word) - 1);
          channel = (if channel < 0 then 0 else channel)
      in if channel > 15 then 15 else channel)"

definition int_arg :: "int \<Rightarrow> int" where
  "int_arg x = sint (word_of_int x :: 32 word)"

definition midi_init :: "midi \<Rightarrow> error + midi" where
  "midi_init s =
     (let s1 = (if \<not> luaMIDI s then s\<lparr>luaMIDI := True\<rparr> else s);
          s2 = (if commandQueue s1 = None
                then s1\<lparr>commandQueue := Some (replicate CMD_BLOCK fresh_cell),
                        commandQueueAllocatedSize := CMD_BLOCK\<rparr>
                else s1)
      in Inr (s2\<lparr>commandQueueIndex := 0, notePlaying := (\<lambda>_ _. False)\<rparr>))"

definition midi_configuretiming :: "midi \<Rightarrow> real list \<Rightarrow> error + midi" where
  "midi_configuretiming s args =
     (if length args < 1 \<or> length args > 2
      then Inl (LuaError ''Invalid number of arguments to MIDI.configuretiming()'')
      else
        let s1 = s\<lparr>duration_unit := args ! 0\<rparr>
        in Inr (if length args = 2 then s1\<lparr>late_note_offset := args ! 1\<rparr> else s1))"

definition midi_noteon :: "midi \<Rightarrow> int list \<Rightarrow> error + midi" where
  "midi_noteon s args =
     (if length args < 2 \<or> length args > 3
      then Inl (LuaError ''Invalid number of arguments to MIDI.noteon()'')
      else if \<not> initcheck s then Inl (LuaError ''Must call MIDI.init() before MIDI.noteon()'')
      else
        let n = (args ! 0) AND 0x7F;
            vel = (args ! 1) AND 0x7F
        in if vel = 0 then Inr s
           else
             let ch = (if length args = 3 then channel_arg (args ! 2) else 0)
             in Inr (queueCommand
                  \<lparr>type = kNoteOn, channel = ch, note = n, velocity = vel, duration = 0\<rparr> s))"

definition midi_noteoff :: "midi \<Rightarrow> int list \<Rightarrow> error + midi" where
  "midi_noteoff s args =
     (if length args < 1 \<or> length args > 2
      then Inl (LuaError ''Invalid number of arguments to MIDI.noteoff()'')
      else if \<not> initcheck s then Inl (LuaError ''Must call MIDI.init() before MIDI.noteoff()'')
      else
        let n = (args ! 0) AND 0x7F;
            ch = (if length args = 2 then channel_arg (args ! 1) else 0)
        in Inr (queueCommand
             \<lparr>type = kNoteOff, channel = ch, note = n, velocity = 0, duration = 0\<rparr> s))"

definition midi_noteonwithduration :: "midi \<Rightarrow> int list \<Rightarrow> error + midi" where
  "midi_noteonwithduration s args =
     (if length args < 3 \<or> length args > 4
      then Inl (LuaError ''Invalid number of arguments to MIDI.noteonwithduration()'')
      else if \<not> initcheck s
      then Inl (LuaError ''Must call MIDI.init() before MIDI.noteonwithduration()'')
      else
        let n = (args ! 0) AND 0x7F;
            vel = (args ! 1) AND 0x7F
        in if vel = 0 then Inr s
           else
             let dur = int_arg (args ! 2)
             in if \<not> (dur > 0) then Inr s
                else
                  let ch = (if length args = 4 then channel_arg (args ! 3) else 0)
                  in Inr (queueCommand
                       \<lparr>type = kNoteOnWithDuration, channel = ch, note = n, velocity = vel,
                        duration = dur\<rparr> s))"

definition midi_CC :: "midi \<Rightarrow> int list \<Rightarrow> error + midi" where
  "midi_CC s args =
     (if length args < 2 \<or> length args > 3
      then Inl (LuaError ''Invalid number of arguments to MIDI.CC()'')
      else if \<not> initcheck s then Inl (LuaError ''Must call MIDI.init() before MIDI.CC()'')
      else
        let cc = int_arg (args ! 0);
            cc = (if cc < 0 then 0 else cc);
            cc = (if cc > 119 then 119 else cc);
            v = (args ! 1) AND 0x7F;
            ch = (if length args = 3 then channel_arg (args ! 2) else 0)
        in Inr (queueCommand
             \<lparr>type = kCC, channel = ch, note = cc, velocity = v, duration = 0\<rparr> s))"

text \<open>
  \<^verbatim>\<open>MIDI.pitchbend\<close> takes a number (\<open>bend\<close>; \<open>args\<close> are the arguments after it), clamps it to \<open>[-1, 1]\<close> and rounds \<^verbatim>\<open>8191.0 * value\<close>
  with \<^verbatim>\<open>roundf\<close> (halves away from zero); the arithmetic is exact here. The two halves of
  the 14-bit value are masked to 7 bits.
\<close>

definition roundf :: "real \<Rightarrow> int" where
  "roundf x = (if 0 \<le> x then \<lfloor>x + 1 / 2\<rfloor> else \<lceil>x - 1 / 2\<rceil>)"

definition midi_pitchbend :: "midi \<Rightarrow> real \<Rightarrow> int list \<Rightarrow> error + midi" where
  "midi_pitchbend s bend args =
     (if length args > 1
      then Inl (LuaError ''Invalid number of arguments to MIDI.pitchbend()'')
      else if \<not> initcheck s then Inl (LuaError ''Must call MIDI.init() before MIDI.pitchbend()'')
      else
        let v = (if bend > 1 then 1 else bend);
            v = (if v < - 1 then - 1 else v);
            ch = (if length args = 1 then channel_arg (args ! 0) else 0);
            delta14b = roundf (8191 * v);
            pbvalue14b = 8192 + delta14b;
            pbvalueL7b = pbvalue14b AND 0x7F;
            pbvalueM7b = (drop_bit 7 pbvalue14b) AND 0x7F
        in Inr (queueCommand
             \<lparr>type = kPitchBend, channel = ch, note = pbvalueM7b, velocity = pbvalueL7b,
              duration = 0\<rparr> s))"

definition midi_allnotesoff :: "midi \<Rightarrow> int list \<Rightarrow> error + midi" where
  "midi_allnotesoff s args =
     (if length args > 1
      then Inl (LuaError ''Invalid number of arguments to MIDI.allnotesoff()'')
      else if \<not> initcheck s then Inl (LuaError ''Must call MIDI.init() before MIDI.allnotesoff()'')
      else
        let ch = (if length args = 1 then channel_arg (args ! 0) else 0)
        in Inr (queueCommand
             \<lparr>type = kResetNotes, channel = ch, note = 0, velocity = 0, duration = 0\<rparr> s))"

text \<open>
  The calls of the module as values, and a script as a list of calls. A call that raises
  leaves the state unchanged and the script goes on (the error is Lua's to handle).
\<close>

datatype call =
    Init
  | ConfigureTiming "real list"
  | NoteOn "int list"
  | NoteOff "int list"
  | NoteOnWithDuration "int list"
  | ControlChange "int list"
  | PitchBend real "int list"
  | AllNotesOff "int list"
  | SendMessages

fun api :: "call \<Rightarrow> midi \<Rightarrow> error + midi" where
  "api Init s = midi_init s"
| "api (ConfigureTiming args) s = midi_configuretiming s args"
| "api (NoteOn args) s = midi_noteon s args"
| "api (NoteOff args) s = midi_noteoff s args"
| "api (NoteOnWithDuration args) s = midi_noteonwithduration s args"
| "api (ControlChange args) s = midi_CC s args"
| "api (PitchBend bend args) s = midi_pitchbend s bend args"
| "api (AllNotesOff args) s = midi_allnotesoff s args"
| "api SendMessages s = midi_sendMessages s"

definition after :: "call \<Rightarrow> midi \<Rightarrow> midi" where
  "after c s = (case api c s of Inl e \<Rightarrow> s | Inr s' \<Rightarrow> s')"

definition script :: "call list \<Rightarrow> midi" where
  "script calls = fold after calls startup"

subsection \<open>What happens between a send and a timed note-off\<close>

text \<open>
  The bookkeeping arrays are written by pass 3 sending a queue entry and by a dispatched
  block running; \<open>happen\<close> runs a list of such events in order. \<open>retriggers a b evs\<close>
  counts the note-ons (with or without duration) that the events send for note \<open>b\<close> on
  channel \<open>a\<close>.
\<close>

datatype event = Send command | Fire task

fun happen :: "event \<Rightarrow> midi \<Rightarrow> midi" where
  "happen (Send c) s = send_entry c s"
| "happen (Fire t) s = fire t s"

definition note_ons_for :: "nat \<Rightarrow> nat \<Rightarrow> command list \<Rightarrow> nat" where
  "note_ons_for a b cmds =
     length (filter (\<lambda>c. is_note_on c \<and> nat (channel c) = a \<and> nat (note c) = b) cmds)"

fun retriggers_of :: "nat \<Rightarrow> nat \<Rightarrow> event \<Rightarrow> nat" where
  "retriggers_of a b (Send c) = note_ons_for a b [c]"
| "retriggers_of a b (Fire (DelayedBlock delay cmds)) = note_ons_for a b cmds"
| "retriggers_of a b (Fire (NoteOffBlock delay ch n currentNoteID)) = 0"

definition retriggers :: "nat \<Rightarrow> nat \<Rightarrow> event list \<Rightarrow> nat" where
  "retriggers a b evs = sum_list (map (retriggers_of a b) evs)"

subsection \<open>Auxiliary notions\<close>


text \<open>
  The queue as \<^verbatim>\<open>queueCommand\<close> keeps it: the index is within the allocated size, and the
  array has that many cells.
\<close>

definition queue_ok :: "midi \<Rightarrow> bool" where
  "queue_ok s =
     (commandQueueIndex s \<le> commandQueueAllocatedSize s \<and>
      length (cells s) = commandQueueAllocatedSize s)"

text \<open>The invariant of the queue: its shape, and every queued command in range.\<close>

definition queue_inv :: "midi \<Rightarrow> bool" where
  "queue_inv s = (queue_ok s \<and> list_all in_range (queued s))"

text \<open>The five masks of the backward pass, without its two counters.\<close>

definition masks :: "dedup \<Rightarrow> (nat \<Rightarrow> 16 word) \<times> (nat \<Rightarrow> 16 word) \<times> (nat \<Rightarrow> 16 word) \<times> 16 word \<times> 16 word" where
  "masks m = (noteOns m, noteOffs m, CCs m, notesReset m, pitchBends m)"


subsection \<open>Example commands\<close>

abbreviation mkNoteOn :: "int \<Rightarrow> int \<Rightarrow> int \<Rightarrow> command" where
  "mkNoteOn ch n vel \<equiv> \<lparr>type = kNoteOn, channel = ch, note = n, velocity = vel, duration = 0\<rparr>"


abbreviation mkNoteOff :: "int \<Rightarrow> int \<Rightarrow> command" where
  "mkNoteOff ch n \<equiv> \<lparr>type = kNoteOff, channel = ch, note = n, velocity = 0, duration = 0\<rparr>"


abbreviation mkResetNotes :: "int \<Rightarrow> command" where
  "mkResetNotes ch \<equiv> \<lparr>type = kResetNotes, channel = ch, note = 0, velocity = 0, duration = 0\<rparr>"

section \<open>Properties\<close>

subsection \<open>The channel masks\<close>

lemma claimed_iff_bit: "claimed w ch = bit w (nat ch)"
  by (simp add: claimed_def and_one_eq bit_iff_odd_drop_bit mod_2_eq_odd)

lemma bit_claim: "bit (claim w ch) k = (bit w k \<or> (k = nat ch \<and> nat ch < 16))"
  by (auto simp add: claim_def bit_or_iff bit_push_bit_iff bit_1_iff bit_exp_iff dest: bit_imp_le_length)

lemma claimed_claim:
  "claimed (claim w ch) ch' = (claimed w ch' \<or> (nat ch' = nat ch \<and> nat ch < 16))"
  by (simp add: claimed_iff_bit bit_claim)


subsection \<open>The two passes, entry by entry\<close>

lemma fst_pass1_Cons:
  "fst (pass1 playing m0 (c # cs)) =
     fst (dedup_step playing c (snd (pass1 playing m0 cs))) # fst (pass1 playing m0 cs)"
  by (simp add: case_prod_beta)

lemma snd_pass1_Cons:
  "snd (pass1 playing m0 (c # cs)) = snd (dedup_step playing c (snd (pass1 playing m0 cs)))"
  by (simp add: case_prod_beta)

lemma length_pass1: "length (fst (pass1 playing m0 cs)) = length cs"
  by (induction cs) (simp_all add: fst_pass1_Cons del: pass1.simps(2))

lemma pass1_nth:
  "i < length cs \<Longrightarrow>
   fst (pass1 playing m0 cs) ! i =
     fst (dedup_step playing (cs ! i) (snd (pass1 playing m0 (drop (Suc i) cs))))"
proof (induction cs arbitrary: i)
  case Nil
  then show ?case by simp
next
  case (Cons c cs)
  then show ?case
    by (cases i) (simp_all add: fst_pass1_Cons del: pass1.simps(2))
qed

lemma pass1_masks_drop:
  "i < length cs \<Longrightarrow>
   snd (pass1 playing m0 (drop i cs)) =
     snd (dedup_step playing (cs ! i) (snd (pass1 playing m0 (drop (Suc i) cs))))"
  by (simp add: Cons_nth_drop_Suc [symmetric] snd_pass1_Cons del: pass1.simps(2))

lemma fst_dedup_step_cases:
  "fst (dedup_step playing c m) = c \<or> fst (dedup_step playing c m) = c\<lparr>type := kInvalid\<rparr>"
  by (auto simp: dedup_step_def note_on_case_def remove_me_def Let_def split: commandType.splits)

lemma fst_pass2_Cons:
  "fst (pass2 playing (c # cs)) =
     (if is_note_on c \<and> playing (nat (channel c)) (nat (note c))
      then c\<lparr>type := kNoteOff\<rparr> else c) # fst (pass2 playing cs)"
  by (simp add: case_prod_beta)

lemma snd_pass2_Cons:
  "snd (pass2 playing (c # cs)) =
     (if is_note_on c \<and> playing (nat (channel c)) (nat (note c))
      then c # snd (pass2 playing cs) else snd (pass2 playing cs))"
  by (simp add: case_prod_beta)

lemma length_pass2: "length (fst (pass2 playing q)) = length q"
  by (induction q) (simp_all add: fst_pass2_Cons del: pass2.simps(2))

lemma pass2_nth:
  "i < length q \<Longrightarrow>
   fst (pass2 playing q) ! i =
     (if is_note_on (q ! i) \<and> playing (nat (channel (q ! i))) (nat (note (q ! i)))
      then (q ! i)\<lparr>type := kNoteOff\<rparr> else q ! i)"
proof (induction q arbitrary: i)
  case Nil
  then show ?case by simp
next
  case (Cons c q)
  then show ?case
    by (cases i) (simp_all add: fst_pass2_Cons del: pass2.simps(2))
qed

lemma snd_pass2:
  "snd (pass2 playing q) =
     filter (\<lambda>c. is_note_on c \<and> playing (nat (channel c)) (nat (note c))) q"
  by (induction q) (simp_all add: snd_pass2_Cons del: pass2.simps(2))

lemma noteOffs_step:
  "noteOffs (snd (dedup_step playing c m)) =
     (if type c = kNoteOff
      then (noteOffs m)(nat (note c) := claim (noteOffs m (nat (note c))) (channel c))
      else noteOffs m)"
  by (simp add: dedup_step_def note_on_case_def remove_me_def Let_def split: commandType.splits)

lemma notesReset_step:
  "notesReset (snd (dedup_step playing c m)) =
     (if type c = kResetNotes then claim (notesReset m) (channel c) else notesReset m)"
  by (simp add: dedup_step_def note_on_case_def remove_me_def Let_def split: commandType.splits)


lemma note_on_step:
  "is_note_on c \<Longrightarrow>
   fst (dedup_step playing c m) =
     (if claimed (noteOffs m (nat (note c))) (channel c) \<or>
         claimed (noteOns m (nat (note c))) (channel c) \<or>
         claimed (notesReset m) (channel c)
      then c\<lparr>type := kInvalid\<rparr> else c)"
  by (auto simp: is_note_on_def dedup_step_def note_on_case_def remove_me_def Let_def)

lemma note_off_step: "type c = kNoteOff \<Longrightarrow> fst (dedup_step playing c m) = c"
  by (simp add: dedup_step_def)

lemma noteOffs_pass1:
  "claimed (noteOffs (snd (pass1 playing m0 cs)) k) ch =
     (claimed (noteOffs m0 k) ch \<or>
      (\<exists>c \<in> set cs. type c = kNoteOff \<and> nat (note c) = k \<and> nat (channel c) = nat ch \<and> nat ch < 16))"
proof (induction cs)
  case Nil
  then show ?case by simp
next
  case (Cons c cs)
  then show ?case
    by (auto simp add: snd_pass1_Cons noteOffs_step claimed_claim simp del: pass1.simps(2))
qed

lemma notesReset_pass1:
  "claimed (notesReset (snd (pass1 playing m0 cs))) ch =
     (claimed (notesReset m0) ch \<or>
      (\<exists>c \<in> set cs. type c = kResetNotes \<and> nat (channel c) = nat ch \<and> nat ch < 16))"
proof (induction cs)
  case Nil
  then show ?case by simp
next
  case (Cons c cs)
  then show ?case
    by (auto simp add: snd_pass1_Cons notesReset_step claimed_claim simp del: pass1.simps(2))
qed

lemma coalesce_nth:
  assumes "i < length batch"
  shows "fst (coalesce playing batch) ! i =
     (let c = fst (pass1 playing (dedup_init (length batch)) batch) ! i in
      if is_note_on c \<and> playing (nat (channel c)) (nat (note c))
      then c\<lparr>type := kNoteOff\<rparr> else c)"
  using assms by (simp add: coalesce_def pass2_nth length_pass1 Let_def)

lemma length_coalesce: "length (fst (coalesce playing batch)) = length batch"
  by (simp add: coalesce_def length_pass2 length_pass1)

lemma nth_mem_immediate:
  assumes "i < length batch" and "type (fst (coalesce playing batch) ! i) \<noteq> kInvalid"
  shows "fst (coalesce playing batch) ! i \<in> set (immediate playing batch)"
  using assms by (simp add: immediate_def length_coalesce)

lemma in_range_channel: "in_range c \<Longrightarrow> 0 \<le> channel c \<and> channel c \<le> 15"
  by (simp add: in_range_def)

lemma in_range_channel_nat: "in_range c \<Longrightarrow> nat (channel c) < 16"
  using in_range_channel [of c] by linarith

subsection \<open>The flush in terms of the two lists\<close>

text \<open>
  \<^verbatim>\<open>delayedCommands\<close> is allocated with room for \<^verbatim>\<open>laterNotes\<close> commands, the count of
  pass 1; pass 2 stores exactly that many.
\<close>

lemma laterNotes_pass1:
  "laterNotes (snd (pass1 playing m0 cs)) =
     laterNotes m0 + length (snd (pass2 playing (fst (pass1 playing m0 cs))))"
proof (induction cs)
  case Nil
  then show ?case by simp
next
  case (Cons c cs)
  let ?m = "snd (pass1 playing m0 cs)"
  have "laterNotes (snd (dedup_step playing c ?m)) =
          laterNotes ?m +
          (if is_note_on (fst (dedup_step playing c ?m)) \<and>
              playing (nat (channel (fst (dedup_step playing c ?m))))
                (nat (note (fst (dedup_step playing c ?m))))
           then 1 else 0)"
    by (cases "type c")
       (simp_all add: dedup_step_def note_on_case_def remove_me_def is_note_on_def Let_def)
  with Cons show ?case
    by (simp add: fst_pass1_Cons snd_pass1_Cons snd_pass2_Cons del: pass1.simps(2) pass2.simps(2))
qed

lemma delayed_fits:
  "length (deferred playing batch) =
     laterNotes (snd (pass1 playing (dedup_init (length batch)) batch))"
  by (simp add: laterNotes_pass1 deferred_def coalesce_def dedup_init_def)

lemma send_entry_kInvalid: "type c = kInvalid \<Longrightarrow> send_entry c s = s"
  by (simp add: send_entry_def)

lemma fold_send_entry_filter:
  "fold send_entry q s = fold send_entry (filter (\<lambda>c. type c \<noteq> kInvalid) q) s"
  by (induction q arbitrary: s) (simp_all add: send_entry_kInvalid)

lemma send_entry_commandQueue:
  "send_entry c (s\<lparr>commandQueue := b\<rparr>) = (send_entry c s)\<lparr>commandQueue := b\<rparr>"
  by (cases "type c")
     (simp_all add: send_entry_def sendNoteOn_def sendNoteOnWithDuration_def sendNoteOff_def
       sendCC_def sendPitchBend_def sendResetNotes_def Let_def)

lemma fold_send_entry_commandQueue:
  "fold send_entry q (s\<lparr>commandQueue := b\<rparr>) = (fold send_entry q s)\<lparr>commandQueue := b\<rparr>"
  by (induction q arbitrary: s) (simp_all add: send_entry_commandQueue)

lemma timing_send_entry:
  "duration_unit (send_entry c s) = duration_unit s \<and>
   late_note_offset (send_entry c s) = late_note_offset s"
  by (cases "type c")
     (simp_all add: send_entry_def sendNoteOn_def sendNoteOnWithDuration_def sendNoteOff_def
       sendCC_def sendPitchBend_def sendResetNotes_def Let_def)

lemma timing_fold_send_entry:
  "duration_unit (fold send_entry q s) = duration_unit s \<and>
   late_note_offset (fold send_entry q s) = late_note_offset s"
  by (induction q arbitrary: s) (simp_all add: timing_send_entry)

text \<open>
  On an initialised module, \<^verbatim>\<open>MIDI.sendmessages()\<close> sends the immediate list in order,
  dispatches one deferred block holding the delayed list, and resets the queue index.
\<close>

lemma flush_outcome:
  assumes "initcheck s"
  shows "midi_sendMessages s =
     Inr ((fold send_entry (immediate (notePlaying s) (queued s)) s)
       \<lparr>commandQueue :=
          Some (fst (coalesce (notePlaying s) (queued s)) @ drop (commandQueueIndex s) (cells s)),
        dispatched :=
          dispatched (fold send_entry (immediate (notePlaying s) (queued s)) s) @
            [DelayedBlock (1000000 * late_note_offset s) (deferred (notePlaying s) (queued s))],
        commandQueueIndex := 0\<rparr>)"
proof -
  obtain q d where qd: "coalesce (notePlaying s) (queued s) = (q, d)"
    by (cases "coalesce (notePlaying s) (queued s)")
  have imm: "immediate (notePlaying s) (queued s) = filter (\<lambda>c. type c \<noteq> kInvalid) q"
    using qd by (simp add: immediate_def)
  have def: "deferred (notePlaying s) (queued s) = d"
    using qd by (simp add: deferred_def)
  show ?thesis
    using assms qd
    by (simp add: midi_sendMessages_def Let_def imm def fold_send_entry_commandQueue
        timing_fold_send_entry fold_send_entry_filter [of q s])
qed

subsection \<open>Note-offs in the backward pass\<close>

lemma note_off_kept:
  assumes "i < length batch" and "type (batch ! i) = kNoteOff" and "in_range (batch ! i)"
  shows "fst (pass1 playing (dedup_init (length batch)) batch) ! i = batch ! i \<and>
         claimed (noteOffs (snd (pass1 playing (dedup_init (length batch)) (drop i batch)))
                    (nat (note (batch ! i)))) (channel (batch ! i)) \<and>
         claimed (noteOffs (snd (pass1 playing (dedup_init (length batch)) batch))
                    (nat (note (batch ! i)))) (channel (batch ! i)) \<and>
         fst (coalesce playing batch) ! i = batch ! i \<and>
         batch ! i \<in> set (immediate playing batch)"
proof -
  let ?m0 = "dedup_init (length batch)"
  have small: "nat (channel (batch ! i)) < 16"
    using assms(3) by (rule in_range_channel_nat)
  have kept: "fst (pass1 playing ?m0 batch) ! i = batch ! i"
    using assms(1,2) by (simp add: pass1_nth note_off_step)
  have mem_drop: "batch ! i \<in> set (drop i batch)"
    using assms(1) by (metis Cons_nth_drop_Suc list.set_intros(1))
  have visited: "claimed (noteOffs (snd (pass1 playing ?m0 (drop i batch)))
                    (nat (note (batch ! i)))) (channel (batch ! i))"
    unfolding noteOffs_pass1 using mem_drop assms(2) small by blast
  have mem: "batch ! i \<in> set batch"
    using assms(1) by simp
  have final: "claimed (noteOffs (snd (pass1 playing ?m0 batch))
                    (nat (note (batch ! i)))) (channel (batch ! i))"
    unfolding noteOffs_pass1 using mem assms(2) small by blast
  have sent: "fst (coalesce playing batch) ! i = batch ! i"
    using assms(1,2) kept by (simp add: coalesce_nth is_note_on_def)
  have "type (fst (coalesce playing batch) ! i) \<noteq> kInvalid"
    using sent assms(2) by simp
  then have "fst (coalesce playing batch) ! i \<in> set (immediate playing batch)"
    using assms(1) by (rule nth_mem_immediate [rotated])
  with kept visited final sent show ?thesis by simp
qed

text \<open>
  C4. Whatever else the batch holds, a note-off at position \<open>i\<close> of the batch is left as
  it is by the backward pass; once the pass has visited it (the pass has then run over
  \<open>drop i batch\<close>), its channel's bit is set in \<open>noteOffs\<close> at its note, and the bit is
  still set when the pass ends; the entry is unchanged after both passes and is among
  the commands that are sent.
\<close>

theorem note_off_never_invalidated:
  assumes "i < length batch" and "type (batch ! i) = kNoteOff" and "in_range (batch ! i)"
  shows "fst (pass1 playing (dedup_init (length batch)) batch) ! i = batch ! i \<and>
         claimed (noteOffs (snd (pass1 playing (dedup_init (length batch)) (drop i batch)))
                    (nat (note (batch ! i)))) (channel (batch ! i)) \<and>
         claimed (noteOffs (snd (pass1 playing (dedup_init (length batch)) batch))
                    (nat (note (batch ! i)))) (channel (batch ! i)) \<and>
         fst (coalesce playing batch) ! i = batch ! i \<and>
         batch ! i \<in> set (immediate playing batch)"
  using assms by (rule note_off_kept)

theorem note_off_never_invalidated_witness:
  "(1::nat) < length [mkNoteOn 0 60 100, mkNoteOff 0 60, mkNoteOn 0 60 90] \<and>
   type ([mkNoteOn 0 60 100, mkNoteOff 0 60, mkNoteOn 0 60 90] ! 1) = kNoteOff \<and>
   in_range ([mkNoteOn 0 60 100, mkNoteOff 0 60, mkNoteOn 0 60 90] ! 1) \<and>
   fst (coalesce (\<lambda>_ _. True) [mkNoteOn 0 60 100, mkNoteOff 0 60, mkNoteOn 0 60 90]) ! 1 =
     mkNoteOff 0 60 \<and>
   mkNoteOff 0 60 \<in> set (immediate (\<lambda>_ _. True) [mkNoteOn 0 60 100, mkNoteOff 0 60, mkNoteOn 0 60 90])"
  using note_off_never_invalidated
    [of 1 "[mkNoteOn 0 60 100, mkNoteOff 0 60, mkNoteOn 0 60 90]" "\<lambda>_ _. True"]
  by (simp add: in_range_def)

subsection \<open>A note-on with a later note-off\<close>




subsection \<open>Retrigger split\<close>

lemma fst_pass2_map:
  "fst (pass2 playing q) =
     map (\<lambda>c. if is_note_on c \<and> playing (nat (channel c)) (nat (note c))
              then c\<lparr>type := kNoteOff\<rparr> else c) q"
  by (induction q) (simp_all add: fst_pass2_Cons del: pass2.simps(2))

lemma subseq_note_ons_pass1: "subseq (filter is_note_on (fst (pass1 playing m0 cs))) cs"
proof (induction cs)
  case Nil
  then show ?case by simp
next
  case (Cons c cs)
  have "fst (dedup_step playing c (snd (pass1 playing m0 cs))) = c \<or>
        fst (dedup_step playing c (snd (pass1 playing m0 cs))) = c\<lparr>type := kInvalid\<rparr>"
    by (rule fst_dedup_step_cases)
  then show ?case
  proof
    assume "fst (dedup_step playing c (snd (pass1 playing m0 cs))) = c"
    with Cons show ?thesis
      by (simp add: fst_pass1_Cons list_emb_Cons del: pass1.simps(2))
  next
    assume "fst (dedup_step playing c (snd (pass1 playing m0 cs))) = c\<lparr>type := kInvalid\<rparr>"
    with Cons show ?thesis
      by (simp add: fst_pass1_Cons is_note_on_def list_emb_Cons del: pass1.simps(2))
  qed
qed

lemma deferred_filter:
  "deferred playing batch =
     filter (\<lambda>c. is_note_on c \<and> playing (nat (channel c)) (nat (note c)))
       (fst (pass1 playing (dedup_init (length batch)) batch))"
  by (simp add: deferred_def coalesce_def snd_pass2)

lemma subseq_deferred: "subseq (deferred playing batch) batch"
proof -
  let ?q = "fst (pass1 playing (dedup_init (length batch)) batch)"
  have "deferred playing batch =
          filter (\<lambda>c. playing (nat (channel c)) (nat (note c))) (filter is_note_on ?q)"
    by (simp add: deferred_filter conj_commute)
  moreover have "subseq (filter (\<lambda>c. playing (nat (channel c)) (nat (note c))) (filter is_note_on ?q))
                   (filter is_note_on ?q)"
    by (rule subseq_filter_left)
  ultimately have "subseq (deferred playing batch) (filter is_note_on ?q)"
    by (simp only:)
  then show ?thesis
    using subseq_note_ons_pass1 by (rule subseq_order.trans)
qed

text \<open>
  C2. When a note-on (with or without duration) at position \<open>i\<close> of the batch survives
  the backward pass and its note is playing before the flush, the entry at position \<open>i\<close>
  of the queue becomes a note-off for the same channel and note and is sent, the
  original note-on is in the delayed list, and the delayed list is a subsequence of
  the batch: its items are in batch order.
\<close>

theorem retrigger_split:
  assumes "i < length batch" and "is_note_on (batch ! i)"
    and "type (fst (pass1 playing (dedup_init (length batch)) batch) ! i) \<noteq> kInvalid"
    and "playing (nat (channel (batch ! i))) (nat (note (batch ! i)))"
  shows "fst (coalesce playing batch) ! i = (batch ! i)\<lparr>type := kNoteOff\<rparr> \<and>
         (batch ! i)\<lparr>type := kNoteOff\<rparr> \<in> set (immediate playing batch) \<and>
         batch ! i \<in> set (deferred playing batch) \<and>
         subseq (deferred playing batch) batch"
proof -
  let ?q = "fst (pass1 playing (dedup_init (length batch)) batch)"
  have "?q ! i = batch ! i \<or> ?q ! i = (batch ! i)\<lparr>type := kInvalid\<rparr>"
    using assms(1) by (simp add: pass1_nth fst_dedup_step_cases)
  with assms(3) have kept: "?q ! i = batch ! i"
    by auto
  have split: "fst (coalesce playing batch) ! i = (batch ! i)\<lparr>type := kNoteOff\<rparr>"
    using assms(1,2,4) kept by (simp add: coalesce_nth)
  then have "type (fst (coalesce playing batch) ! i) \<noteq> kInvalid"
    by simp
  then have "fst (coalesce playing batch) ! i \<in> set (immediate playing batch)"
    using assms(1) by (rule nth_mem_immediate [rotated])
  then have sent: "(batch ! i)\<lparr>type := kNoteOff\<rparr> \<in> set (immediate playing batch)"
    using split by simp
  have "?q ! i \<in> set ?q"
    using assms(1) by (simp add: length_pass1)
  then have later: "batch ! i \<in> set (deferred playing batch)"
    using kept assms(2,4) by (simp add: deferred_filter)
  from split sent later subseq_deferred show ?thesis
    by simp
qed

theorem retrigger_split_witness:
  "(0::nat) < length [mkNoteOn 2 10 5] \<and> is_note_on ([mkNoteOn 2 10 5] ! 0) \<and>
   type (fst (pass1 (\<lambda>_ _. True) (dedup_init (length [mkNoteOn 2 10 5])) [mkNoteOn 2 10 5]) ! 0)
     \<noteq> kInvalid \<and>
   fst (coalesce (\<lambda>_ _. True) [mkNoteOn 2 10 5]) ! 0 = (mkNoteOn 2 10 5)\<lparr>type := kNoteOff\<rparr> \<and>
   mkNoteOn 2 10 5 \<in> set (deferred (\<lambda>_ _. True) [mkNoteOn 2 10 5])"
  using retrigger_split [of 0 "[mkNoteOn 2 10 5]" "\<lambda>_ _. True"]
  by (simp add: is_note_on_def dedup_step_def note_on_case_def dedup_init_def claimed_def)

subsection \<open>Reset notes\<close>

lemma dedup_step_masks:
  assumes "masks m = masks m'"
  shows "fst (dedup_step playing c m) = fst (dedup_step playing c m') \<and>
         masks (snd (dedup_step playing c m)) = masks (snd (dedup_step playing c m'))"
  using assms
  by (cases "type c")
     (simp_all add: masks_def dedup_step_def note_on_case_def remove_me_def Let_def)

lemma pass1_masks:
  assumes "masks m0 = masks m0'"
  shows "fst (pass1 playing m0 cs) = fst (pass1 playing m0' cs) \<and>
         masks (snd (pass1 playing m0 cs)) = masks (snd (pass1 playing m0' cs))"
proof (induction cs)
  case Nil
  with assms show ?case by simp
next
  case (Cons c cs)
  then show ?case
    using dedup_step_masks [of "snd (pass1 playing m0 cs)" "snd (pass1 playing m0' cs)" playing c]
    by (simp add: fst_pass1_Cons snd_pass1_Cons del: pass1.simps(2))
qed

lemma masks_dedup_init: "masks (dedup_init n) = masks (dedup_init n')"
  by (simp add: masks_def dedup_init_def)

lemma drop_pass1: "drop k (fst (pass1 playing m0 cs)) = fst (pass1 playing m0 (drop k cs))"
proof (induction cs arbitrary: k)
  case Nil
  then show ?case by simp
next
  case (Cons c cs)
  then show ?case
    by (cases k) (simp_all add: fst_pass1_Cons del: pass1.simps(2))
qed

lemma drop_coalesce:
  "drop k (fst (coalesce playing batch)) = fst (coalesce playing (drop k batch))"
proof -
  have "fst (pass1 playing (dedup_init (length batch)) (drop k batch)) =
        fst (pass1 playing (dedup_init (length (drop k batch))) (drop k batch))"
    using pass1_masks [OF masks_dedup_init] by blast
  then show ?thesis
    by (simp add: coalesce_def fst_pass2_map drop_map drop_pass1 del: length_drop)
qed

lemma reset_removes_earlier:
  assumes "i < r" and "r < length batch"
    and "type (batch ! r) = kResetNotes" and "in_range (batch ! r)"
    and "is_note_on (batch ! i)" and "channel (batch ! i) = channel (batch ! r)"
  shows "fst (pass1 playing (dedup_init (length batch)) batch) ! i = (batch ! i)\<lparr>type := kInvalid\<rparr> \<and>
         type (fst (coalesce playing batch) ! i) = kInvalid"
proof -
  let ?m0 = "dedup_init (length batch)"
  have i: "i < length batch"
    using assms(1,2) by simp
  have small: "nat (channel (batch ! i)) < 16"
    using in_range_channel_nat [OF assms(4)] assms(6) by simp
  have "batch ! r \<in> set (drop (Suc i) batch)"
    using assms(1,2) by (auto simp: in_set_conv_nth intro!: exI [of _ "r - Suc i"])
  then have "claimed (notesReset (snd (pass1 playing ?m0 (drop (Suc i) batch)))) (channel (batch ! i))"
    unfolding notesReset_pass1 using assms(3,6) small by force
  then have removed: "fst (pass1 playing ?m0 batch) ! i = (batch ! i)\<lparr>type := kInvalid\<rparr>"
    using i assms(5) by (simp add: pass1_nth note_on_step)
  then have "type (fst (coalesce playing batch) ! i) = kInvalid"
    using i by (simp add: coalesce_nth is_note_on_def)
  with removed show ?thesis by simp
qed

text \<open>
  C5. For a \<^verbatim>\<open>kResetNotes\<close> at position \<open>r\<close>: every note-on (with or without duration) on
  its channel at an earlier position is overwritten with \<^verbatim>\<open>kInvalid\<close> by the backward
  pass and is not sent; and the entries behind position \<open>r\<close> come out of the two passes
  exactly as they do when the batch starts behind \<open>r\<close>, and exactly as they do when the
  reset is taken out of the batch: the reset has no effect on a later command.
\<close>

theorem reset_notes_scope:
  assumes "r < length batch" and "type (batch ! r) = kResetNotes" and "in_range (batch ! r)"
  shows "(\<forall>i < r. is_note_on (batch ! i) \<and> channel (batch ! i) = channel (batch ! r) \<longrightarrow>
            fst (pass1 playing (dedup_init (length batch)) batch) ! i = (batch ! i)\<lparr>type := kInvalid\<rparr> \<and>
            type (fst (coalesce playing batch) ! i) = kInvalid) \<and>
         drop (Suc r) (fst (coalesce playing batch)) = fst (coalesce playing (drop (Suc r) batch)) \<and>
         drop (Suc r) (fst (coalesce playing batch)) =
           drop r (fst (coalesce playing (take r batch @ drop (Suc r) batch)))"
proof -
  have "drop r (fst (coalesce playing (take r batch @ drop (Suc r) batch))) =
        fst (coalesce playing (drop (Suc r) batch))"
    using assms(1) by (simp add: drop_coalesce min_def)
  then show ?thesis
    using assms reset_removes_earlier [of _ r batch playing]
    by (simp add: drop_coalesce)
qed

theorem reset_notes_scope_witness:
  "(1::nat) < length [mkNoteOn 3 60 100, mkResetNotes 3, mkNoteOn 3 60 90] \<and>
   type ([mkNoteOn 3 60 100, mkResetNotes 3, mkNoteOn 3 60 90] ! 1) = kResetNotes \<and>
   in_range ([mkNoteOn 3 60 100, mkResetNotes 3, mkNoteOn 3 60 90] ! 1) \<and>
   is_note_on ([mkNoteOn 3 60 100, mkResetNotes 3, mkNoteOn 3 60 90] ! 0) \<and>
   type (fst (coalesce (\<lambda>_ _. False) [mkNoteOn 3 60 100, mkResetNotes 3, mkNoteOn 3 60 90]) ! 0)
     = kInvalid \<and>
   drop (Suc 1) (fst (coalesce (\<lambda>_ _. False) [mkNoteOn 3 60 100, mkResetNotes 3, mkNoteOn 3 60 90]))
     = [mkNoteOn 3 60 90]"
  using reset_notes_scope [of 1 "[mkNoteOn 3 60 100, mkResetNotes 3, mkNoteOn 3 60 90]" "\<lambda>_ _. False"]
  by (simp add: in_range_def is_note_on_def coalesce_def dedup_step_def note_on_case_def
      dedup_init_def claimed_def)

subsection \<open>Control changes\<close>








subsection \<open>Timed note-offs\<close>

lemma lastNoteIDs_send_entry:
  "lastNoteIDs (send_entry c s) a b = lastNoteIDs s a b + of_nat (note_ons_for a b [c])"
  by (cases "type c")
     (auto simp add: send_entry_def note_ons_for_def is_note_on_def sendNoteOn_def
       sendNoteOnWithDuration_def sendNoteOff_def sendCC_def sendPitchBend_def sendResetNotes_def
       Let_def)

lemma lastNoteIDs_send_delayed:
  "lastNoteIDs (send_delayed c s) a b = lastNoteIDs s a b + of_nat (note_ons_for a b [c])"
  by (cases "type c")
     (auto simp add: send_delayed_def note_ons_for_def is_note_on_def sendNoteOn_def
       sendNoteOnWithDuration_def Let_def)

lemma note_ons_for_Cons:
  "note_ons_for a b (c # cs) = note_ons_for a b [c] + note_ons_for a b cs"
  by (simp add: note_ons_for_def)

lemma lastNoteIDs_fold_send_delayed:
  "lastNoteIDs (fold send_delayed cmds s) a b = lastNoteIDs s a b + of_nat (note_ons_for a b cmds)"
proof (induction cmds arbitrary: s)
  case Nil
  then show ?case by (simp add: note_ons_for_def)
next
  case (Cons c cmds)
  show ?case
    by (simp add: Cons.IH lastNoteIDs_send_delayed note_ons_for_Cons [of a b c cmds])
qed

lemma lastNoteIDs_happen:
  "lastNoteIDs (happen ev s) a b = lastNoteIDs s a b + of_nat (retriggers_of a b ev)"
proof (cases ev)
  case (Send c)
  then show ?thesis by (simp add: lastNoteIDs_send_entry)
next
  case (Fire t)
  then show ?thesis
    by (cases t) (simp_all add: lastNoteIDs_fold_send_delayed)
qed

lemma lastNoteIDs_events:
  "lastNoteIDs (fold happen evs s) a b = lastNoteIDs s a b + of_nat (retriggers a b evs)"
proof (induction evs arbitrary: s)
  case Nil
  then show ?case by (simp add: retriggers_def)
next
  case (Cons ev evs)
  show ?case
    by (simp add: Cons.IH lastNoteIDs_happen retriggers_def)
qed

lemma same_id_iff: "(uint (x + of_nat k :: 8 word) = uint x) = (k mod 256 = 0)"
proof -
  have "(uint (x + of_nat k) = uint x) = (x + of_nat k = x)"
    by (rule word_uint_eq_iff [symmetric])
  also have "\<dots> = (of_nat k = (0 :: 8 word))"
    by simp
  also have "\<dots> = (256 dvd k)"
    by (simp add: word_of_nat_eq_0_iff)
  also have "\<dots> = (k mod 256 = 0)"
    by (rule dvd_eq_mod_eq_0)
  finally show ?thesis .
qed

text \<open>
  C1, amended. \<^verbatim>\<open>sendNoteOnWithDuration\<close> dispatches one note-off block that captures the
  note's ID as it is after the increment. A running note-off block sends a note-off and
  clears \<^verbatim>\<open>notePlaying\<close> exactly when the note's ID equals the captured one, and otherwise
  leaves the state as it is. After any events, the ID equals the captured one exactly
  when the number of note-ons sent for the note since is a multiple of 256; a note-off
  sent in between is not counted and leaves every ID unchanged.
\<close>

theorem timed_note_off:
  "dispatched (sendNoteOnWithDuration ch n vel dur offset s) =
     dispatched s @
       [NoteOffBlock (1000000 * duration_unit s * (real_of_int dur - offset)) ch n
          (uint (lastNoteIDs (sendNoteOnWithDuration ch n vel dur offset s) (nat ch) (nat n)))] \<and>
   fire (NoteOffBlock delay ch n currentNoteID) s' =
     (if uint (lastNoteIDs s' (nat ch) (nat n)) = currentNoteID
      then s'\<lparr>received := received s' @ [[byte (0x80 + ch), byte n, 0]],
              notePlaying := (notePlaying s') (nat ch := (notePlaying s' (nat ch))(nat n := False))\<rparr>
      else s') \<and>
   (uint (lastNoteIDs (fold happen evs (sendNoteOnWithDuration ch n vel dur offset s)) (nat ch) (nat n)) =
      uint (lastNoteIDs (sendNoteOnWithDuration ch n vel dur offset s) (nat ch) (nat n))) =
     (retriggers (nat ch) (nat n) evs mod 256 = 0) \<and>
   retriggers_of (nat ch) (nat n) (Send (mkNoteOff ch' n')) = 0 \<and>
   lastNoteIDs (sendNoteOff ch' n' s') = lastNoteIDs s'"
  by (simp add: lastNoteIDs_events same_id_iff note_ons_for_def is_note_on_def sendNoteOff_def)
     (simp add: sendNoteOnWithDuration_def Let_def)

text \<open>
  C1, as stated: the IDs would differ once the note has been turned off explicitly.
  After a note-on with duration and an explicit note-off for the same note, the ID still
  equals the captured one, and the block sends a second note-off.
\<close>

theorem timed_note_off_counterexample:
  "dispatched (script [Init, NoteOnWithDuration [60, 100, 4], SendMessages, NoteOff [60], SendMessages]) ! 0
     = NoteOffBlock 64000000 0 60 1 \<and>
   uint (lastNoteIDs
     (script [Init, NoteOnWithDuration [60, 100, 4], SendMessages, NoteOff [60], SendMessages]) 0 60) = 1 \<and>
   received (fire (NoteOffBlock 64000000 0 60 1)
     (script [Init, NoteOnWithDuration [60, 100, 4], SendMessages, NoteOff [60], SendMessages]))
     = [[0x90, 60, 100], [0x80, 60, 100], [0x80, 60, 0]]"
  by code_simp

subsection \<open>Durations of delayed notes\<close>







subsection \<open>Appending to the queue\<close>

lemma cells_queueCommand:
  "cells (queueCommand c s) =
     (if commandQueueIndex s = commandQueueAllocatedSize s
      then (cells s @ replicate CMD_BLOCK fresh_cell)[commandQueueIndex s := c]
      else (cells s)[commandQueueIndex s := c])"
  by (simp add: queueCommand_def cells_def Let_def)

lemma index_queueCommand: "commandQueueIndex (queueCommand c s) = commandQueueIndex s + 1"
  by (simp add: queueCommand_def Let_def)

lemma size_queueCommand:
  "commandQueueAllocatedSize (queueCommand c s) =
     (if commandQueueIndex s = commandQueueAllocatedSize s
      then commandQueueAllocatedSize s + CMD_BLOCK else commandQueueAllocatedSize s)"
  by (simp add: queueCommand_def Let_def)

lemma queue_ok_queueCommand: "queue_ok s \<Longrightarrow> queue_ok (queueCommand c s)"
  by (auto simp add: queue_ok_def cells_queueCommand index_queueCommand size_queueCommand
      CMD_BLOCK_def)

lemma queued_queueCommand: "queue_ok s \<Longrightarrow> queued (queueCommand c s) = queued s @ [c]"
  by (auto simp add: queue_ok_def queued_def cells_queueCommand index_queueCommand
      CMD_BLOCK_def take_Suc_conv_app_nth nth_append)




subsection \<open>Ranges of the queued commands\<close>

lemma and_7F_range: "0 \<le> (x::int) AND 0x7F \<and> x AND 0x7F \<le> 127"
  by simp

lemma and_7F_pos: "(v::int) AND 0x7F \<noteq> 0 \<Longrightarrow> 1 \<le> v AND 0x7F"
proof -
  assume "v AND 0x7F \<noteq> 0"
  moreover have "0 \<le> v AND 0x7F"
    by simp
  ultimately show ?thesis
    by linarith
qed

lemma channel_arg_range: "0 \<le> channel_arg x \<and> channel_arg x \<le> 15"
  by (simp add: channel_arg_def Let_def)

lemma queue_inv_queueCommand:
  assumes "queue_inv s" and "in_range c"
  shows "queue_inv (queueCommand c s)"
  using assms by (simp add: queue_inv_def queue_ok_queueCommand queued_queueCommand)

lemma queue_inv_startup: "queue_inv startup"
  by (simp add: queue_inv_def queue_ok_def queued_def cells_def startup_def)

lemma queue_inv_init:
  assumes "queue_inv s" and "midi_init s = Inr s'"
  shows "queue_inv s'"
  using assms
  by (auto simp add: midi_init_def queue_inv_def queue_ok_def queued_def cells_def Let_def
      CMD_BLOCK_def split: if_splits option.splits)

lemma queue_inv_configuretiming:
  assumes "queue_inv s" and "midi_configuretiming s args = Inr s'"
  shows "queue_inv s'"
  using assms
  by (auto simp add: midi_configuretiming_def queue_inv_def queue_ok_def queued_def cells_def
      Let_def split: if_splits)

lemma queue_inv_noteon:
  assumes "queue_inv s" and "midi_noteon s args = Inr s'"
  shows "queue_inv s'"
proof -
  have "in_range \<lparr>type = kNoteOn, channel = ch, note = x AND 0x7F, velocity = v AND 0x7F,
          duration = 0\<rparr>"
    if "v AND 0x7F \<noteq> 0" and "0 \<le> ch \<and> ch \<le> 15" for x v ch :: int
    using that and_7F_range [of x] and_7F_range [of v] and_7F_pos [of v] by (simp add: in_range_def)
  then show ?thesis
    using assms channel_arg_range
    by (auto simp add: midi_noteon_def Let_def queue_inv_queueCommand split: if_splits)
qed

lemma queue_inv_noteoff:
  assumes "queue_inv s" and "midi_noteoff s args = Inr s'"
  shows "queue_inv s'"
proof -
  have "in_range \<lparr>type = kNoteOff, channel = ch, note = x AND 0x7F, velocity = 0, duration = 0\<rparr>"
    if "0 \<le> ch \<and> ch \<le> 15" for x ch :: int
    using that and_7F_range [of x] by (simp add: in_range_def)
  then show ?thesis
    using assms channel_arg_range
    by (auto simp add: midi_noteoff_def Let_def queue_inv_queueCommand split: if_splits)
qed

lemma queue_inv_noteonwithduration:
  assumes "queue_inv s" and "midi_noteonwithduration s args = Inr s'"
  shows "queue_inv s'"
proof -
  have "in_range \<lparr>type = kNoteOnWithDuration, channel = ch, note = x AND 0x7F,
          velocity = v AND 0x7F, duration = d\<rparr>"
    if "v AND 0x7F \<noteq> 0" and "0 < d" and "0 \<le> ch \<and> ch \<le> 15" for x v d ch :: int
    using that and_7F_range [of x] and_7F_range [of v] and_7F_pos [of v] by (simp add: in_range_def)
  then show ?thesis
    using assms channel_arg_range
    by (auto simp add: midi_noteonwithduration_def Let_def queue_inv_queueCommand
        split: if_splits)
qed

lemma queue_inv_CC:
  assumes "queue_inv s" and "midi_CC s args = Inr s'"
  shows "queue_inv s'"
proof -
  have "in_range \<lparr>type = kCC, channel = ch, note = cc, velocity = v AND 0x7F, duration = 0\<rparr>"
    if "0 \<le> cc \<and> cc \<le> 119" and "0 \<le> ch \<and> ch \<le> 15" for cc v ch :: int
    using that and_7F_range [of v] by (simp add: in_range_def CC_def)
  then show ?thesis
    using assms channel_arg_range
    by (auto simp add: midi_CC_def Let_def queue_inv_queueCommand split: if_splits)
qed

lemma queue_inv_pitchbend:
  assumes "queue_inv s" and "midi_pitchbend s bend args = Inr s'"
  shows "queue_inv s'"
proof -
  have "in_range \<lparr>type = kPitchBend, channel = ch, note = x AND 0x7F, velocity = y AND 0x7F,
          duration = 0\<rparr>"
    if "0 \<le> ch \<and> ch \<le> 15" for x y ch :: int
    using that and_7F_range [of x] and_7F_range [of y] by (simp add: in_range_def MS7b_def LS7b_def)
  then show ?thesis
    using assms channel_arg_range
    by (auto simp add: midi_pitchbend_def Let_def queue_inv_queueCommand split: if_splits)
qed

lemma queue_inv_allnotesoff:
  assumes "queue_inv s" and "midi_allnotesoff s args = Inr s'"
  shows "queue_inv s'"
proof -
  have "in_range \<lparr>type = kResetNotes, channel = ch, note = 0, velocity = 0, duration = 0\<rparr>"
    if "0 \<le> ch \<and> ch \<le> 15" for ch :: int
    using that by (simp add: in_range_def)
  then show ?thesis
    using assms channel_arg_range
    by (auto simp add: midi_allnotesoff_def Let_def queue_inv_queueCommand split: if_splits)
qed

lemma untouched_send_entry:
  "commandQueue (send_entry c s) = commandQueue s \<and>
   commandQueueAllocatedSize (send_entry c s) = commandQueueAllocatedSize s \<and>
   commandQueueIndex (send_entry c s) = commandQueueIndex s"
  by (cases "type c")
     (simp_all add: send_entry_def sendNoteOn_def sendNoteOnWithDuration_def sendNoteOff_def
       sendCC_def sendPitchBend_def sendResetNotes_def Let_def)

lemma untouched_fold_send_entry:
  "commandQueue (fold send_entry q s) = commandQueue s \<and>
   commandQueueAllocatedSize (fold send_entry q s) = commandQueueAllocatedSize s \<and>
   commandQueueIndex (fold send_entry q s) = commandQueueIndex s"
  by (induction q arbitrary: s) (simp_all add: untouched_send_entry)

lemma queue_inv_sendMessages:
  assumes "queue_inv s" and "midi_sendMessages s = Inr s'"
  shows "queue_inv s'"
proof -
  obtain q d where qd: "coalesce (notePlaying s) (queued s) = (q, d)"
    by (cases "coalesce (notePlaying s) (queued s)")
  have "length q = length (queued s)"
    using length_coalesce [of "notePlaying s" "queued s"] qd by simp
  also have "\<dots> = commandQueueIndex s"
    using assms(1) by (simp add: queue_inv_def queue_ok_def queued_def)
  finally have len: "length q = commandQueueIndex s" .
  let ?s1 = "s\<lparr>commandQueue := Some (q @ drop (commandQueueIndex s) (cells s))\<rparr>"
  have s': "commandQueue s' = commandQueue ?s1 \<and>
            commandQueueAllocatedSize s' = commandQueueAllocatedSize s \<and>
            commandQueueIndex s' = 0"
    using assms(2) qd untouched_fold_send_entry [of q ?s1]
    by (auto simp add: midi_sendMessages_def Let_def split: if_splits)
  then have "cells s' = q @ drop (commandQueueIndex s) (cells s)"
    by (simp add: cells_def)
  then show ?thesis
    using s' len assms(1) by (simp add: queue_inv_def queue_ok_def queued_def)
qed

lemma queue_inv_after: "queue_inv s \<Longrightarrow> queue_inv (after c s)"
proof (cases "api c s")
  case (Inl e)
  assume "queue_inv s"
  with Inl show ?thesis by (simp add: after_def)
next
  case (Inr s')
  assume inv: "queue_inv s"
  have "queue_inv s'"
    using inv Inr
    by (cases c)
       (auto intro: queue_inv_init queue_inv_configuretiming queue_inv_noteon queue_inv_noteoff
         queue_inv_noteonwithduration queue_inv_CC queue_inv_pitchbend queue_inv_allnotesoff
         queue_inv_sendMessages)
  with Inr show ?thesis by (simp add: after_def)
qed

lemma queue_inv_fold: "queue_inv s \<Longrightarrow> queue_inv (fold after calls s)"
  by (induction calls arbitrary: s) (simp_all add: queue_inv_after)

text \<open>
  C9. After any sequence of API calls from the state the module is loaded in, every
  command in the queue is in range (channel 0..15; note 0..127 and velocity 1..127 for
  the note-ons; note 0..127 for a note-off; controller 0..119 and value 0..127 for a CC),
  and the queue has the shape \<^verbatim>\<open>queueCommand\<close> relies on. Each call keeps the invariant
  (\<open>queue_inv_after\<close>), since it clamps or masks its arguments before it appends.
\<close>

theorem queued_in_range:
  "list_all in_range (queued (script calls)) \<and> queue_ok (script calls)"
  using queue_inv_fold [OF queue_inv_startup, of calls]
  by (simp add: script_def queue_inv_def)

subsection \<open>Calls that queue nothing\<close>




end
